theory Spec2Isabelle
  imports Main "HOL-Library.Sublist"
begin

section \<open>Values handled by the record store accessor\<close>

text \<open>
  The accessor of \<^verbatim>\<open>indexedDbAccessor.js\<close> keeps records in named object stores whose
  key path is the field \<^verbatim>\<open>id\<close>. An id as the JavaScript code sees it is
  \<^verbatim>\<open>undefined\<close>, \<^verbatim>\<open>null\<close>, a number (integers here) or a string; only the last two
  are keys the object store accepts.
\<close>

datatype jsid = IdUndefined | IdNull | IdNum int | IdStr string

text \<open>A record: its \<^verbatim>\<open>id\<close>, its \<^verbatim>\<open>UploadDate\<close> (a timestamp in milliseconds) and the
  rest of its fields.\<close>

record jsrecord =
  rec_id :: jsid
  UploadDate :: int
  payload :: string

text \<open>What a request or an array slot can hold.\<close>

datatype jsval = Null | Undefined | Object jsrecord

text \<open>The argument \<^verbatim>\<open>ids\<close> of \<^verbatim>\<open>getBulk\<close>: an array of ids or anything else.\<close>

datatype jsarg = NotArray | Array "jsid list"

text \<open>\<^verbatim>\<open>!value.id\<close> is true for \<^verbatim>\<open>undefined\<close>, \<^verbatim>\<open>null\<close>, \<^verbatim>\<open>0\<close> and \<^verbatim>\<open>""\<close>.\<close>

fun truthy :: "jsid \<Rightarrow> bool" where
  "truthy IdUndefined = False"
| "truthy IdNull = False"
| "truthy (IdNum n) = (n \<noteq> 0)"
| "truthy (IdStr s) = (s \<noteq> [])"

text \<open>The values an object store takes as a key; any other makes \<^verbatim>\<open>store.get\<close> and
  \<^verbatim>\<open>store.delete\<close> throw.\<close>

fun valid_key :: "jsid \<Rightarrow> bool" where
  "valid_key (IdNum n) = True"
| "valid_key (IdStr s) = True"
| "valid_key _ = False"

subsection \<open>Template literals\<close>

definition digit_char :: "nat \<Rightarrow> char" where
  "digit_char n = char_of (48 + n)"

fun nat_digits :: "nat \<Rightarrow> string" where
  "nat_digits n =
     (if n < 10 then [digit_char n] else nat_digits (n div 10) @ [digit_char (n mod 10)])"

definition int_string :: "int \<Rightarrow> string" where
  "int_string i = (if i < 0 then CHR ''-'' # nat_digits (nat (- i)) else nat_digits (nat i))"

fun to_string :: "jsid \<Rightarrow> string" where
  "to_string IdUndefined = ''undefined''"
| "to_string IdNull = ''null''"
| "to_string (IdNum n) = int_string n"
| "to_string (IdStr s) = s"

text \<open>\<^verbatim>\<open>`${collectionName}:${id}`\<close>\<close>

definition cacheKey :: "string \<Rightarrow> jsid \<Rightarrow> string" where
  "cacheKey collectionName i = collectionName @ '':'' @ to_string i"

section \<open>The object stores\<close>

text \<open>
  An object store is the list of its records in the order a forward cursor visits them:
  ascending key, numbers before strings, strings by their characters.
\<close>

fun str_less :: "string \<Rightarrow> string \<Rightarrow> bool" where
  "str_less [] [] = False"
| "str_less [] (y # ys) = True"
| "str_less (x # xs) [] = False"
| "str_less (x # xs) (y # ys) =
     ((of_char x :: nat) < of_char y \<or> (x = y \<and> str_less xs ys))"

fun key_less :: "jsid \<Rightarrow> jsid \<Rightarrow> bool" where
  "key_less (IdNum a) (IdNum b) = (a < b)"
| "key_less (IdNum a) (IdStr t) = True"
| "key_less (IdStr s) (IdStr t) = str_less s t"
| "key_less _ _ = False"

record object_store =
  records :: "jsrecord list"
  has_index :: bool

text \<open>\<^verbatim>\<open>store.put(value)\<close>: the record under the same key is replaced, a new one takes its
  place in key order.\<close>

fun store_put :: "jsrecord list \<Rightarrow> jsrecord \<Rightarrow> jsrecord list" where
  "store_put [] r = [r]"
| "store_put (x # xs) r =
     (if rec_id x = rec_id r then r # xs
      else if key_less (rec_id r) (rec_id x) then r # x # xs
      else x # store_put xs r)"

text \<open>\<^verbatim>\<open>store.get(id)\<close>, \<^verbatim>\<open>store.delete(id)\<close>.\<close>

definition store_get :: "jsrecord list \<Rightarrow> jsid \<Rightarrow> jsrecord option" where
  "store_get rs i = find (\<lambda>r. rec_id r = i) rs"

definition store_delete :: "jsrecord list \<Rightarrow> jsid \<Rightarrow> jsrecord list" where
  "store_delete rs i = filter (\<lambda>r. rec_id r \<noteq> i) rs"

text \<open>\<^verbatim>\<open>index.openCursor(null, "prev")\<close> on the index \<^verbatim>\<open>UploadDate\<close>: descending index
  key, and descending primary key among equal index keys.\<close>

definition index_prev :: "jsrecord list \<Rightarrow> jsrecord list" where
  "index_prev rs = rev (sort_key UploadDate rs)"

section \<open>Module state, environment and results\<close>

datatype error =
  MissingValueOrCollection | MissingId | MissingCollectionOrId
  | OpenError | NotFoundError | DataError | RequestError

text \<open>A promise settles with a value, settles with an error, or never settles.\<close>

datatype 'a promise = Resolved 'a | Rejected error | Pending

datatype txmode = ReadOnly | ReadWrite

text \<open>What a spy on \<^verbatim>\<open>indexedDB\<close> records: every call made on it, also one that
  throws, and the completion of a read-write transaction.\<close>

datatype idb_call =
  Open
  | Transaction string txmode
  | Put string jsrecord
  | Get string jsid
  | Delete string jsid
  | Count string
  | OpenCursor string
  | OpenIndexCursor string
  | Complete string

record cache_entry =
  cvalue :: jsrecord
  expires :: int

text \<open>
  The module's variables \<^verbatim>\<open>dbConnection\<close> (set or \<^verbatim>\<open>null\<close>) and \<^verbatim>\<open>memoryCache\<close>, the
  database behind \<^verbatim>\<open>indexedDB\<close> (its object stores by name) and the spy's record.
\<close>

record state =
  dbConnection :: bool
  memoryCache :: "string \<rightharpoonup> cache_entry"
  database :: "string \<rightharpoonup> object_store"
  calls :: "idb_call list"

text \<open>
  What the host decides during one operation: whether \<^verbatim>\<open>indexedDB.open\<close> fires
  \<^verbatim>\<open>onerror\<close>, whether the operation's n-th request fires \<^verbatim>\<open>onerror\<close>, whether a
  read-write transaction whose requests all succeeded still aborts when it commits (only
  \<^verbatim>\<open>abort\<close> is fired then, neither \<^verbatim>\<open>error\<close> nor \<^verbatim>\<open>complete\<close>), and what
  \<^verbatim>\<open>Date.now()\<close> returns when the operation starts and in the success handler of its
  n-th request.
\<close>

record env =
  open_fails :: bool
  request_fails :: "nat \<Rightarrow> bool"
  commit_fails :: bool
  now :: int
  now_done :: "nat \<Rightarrow> int"

definition CACHE_ENABLED :: bool where
  "CACHE_ENABLED = True"

definition CACHE_TTL :: int where
  "CACHE_TTL = 86400000"

definition called :: "state \<Rightarrow> idb_call list \<Rightarrow> state" where
  "called s cs = s\<lparr>calls := calls s @ cs\<rparr>"

text \<open>\<^verbatim>\<open>cachedItem && cachedItem.expires > Date.now()\<close>, and the value returned then.\<close>

definition cache_hit :: "(string \<rightharpoonup> cache_entry) \<Rightarrow> string \<Rightarrow> int \<Rightarrow> jsrecord option" where
  "cache_hit m k t =
     (case m k of
        None \<Rightarrow> None
      | Some cachedItem \<Rightarrow> if expires cachedItem > t then Some (cvalue cachedItem) else None)"

section \<open>The operations\<close>

definition getDatabase :: "state \<Rightarrow> env \<Rightarrow> (error + unit) \<times> state" where
  "getDatabase s e =
     (if dbConnection s then (Inr (), s)
      else if open_fails e then (Inl OpenError, called s [Open])
      else (Inr (), (called s [Open])\<lparr>dbConnection := True\<rparr>))"

text \<open>
  \<^verbatim>\<open>set(collectionName, value)\<close>; \<open>None\<close> is a missing value. The promise is resolved
  by \<^verbatim>\<open>transaction.oncomplete\<close> and rejected by \<^verbatim>\<open>transaction.onerror\<close>, to which the
  error of the put request bubbles.
\<close>

definition set_op :: "state \<Rightarrow> env \<Rightarrow> string \<Rightarrow> jsrecord option \<Rightarrow> bool promise \<times> state" where
  "set_op s e collectionName v =
     (case v of
        None \<Rightarrow> (Rejected MissingValueOrCollection, s)
      | Some r \<Rightarrow>
          if collectionName = [] then (Rejected MissingValueOrCollection, s)
          else if \<not> truthy (rec_id r) then (Rejected MissingId, s)
          else
            (case getDatabase s e of
               (Inl err, s1) \<Rightarrow> (Rejected err, s1)
             | (Inr _, s1) \<Rightarrow>
                 (case database s1 collectionName of
                    None \<Rightarrow>
                      (Rejected NotFoundError, called s1 [Transaction collectionName ReadWrite])
                  | Some st \<Rightarrow>
                      let s2 = called s1 [Transaction collectionName ReadWrite,
                                          Put collectionName r]
                      in if request_fails e 0 then (Rejected RequestError, s2)
                         else if commit_fails e then (Pending, s2)
                         else (Resolved True,
                               (called s2 [Complete collectionName])
                                 \<lparr>database := (database s2)(collectionName \<mapsto>
                                    st\<lparr>records := store_put (records st) r\<rparr>)\<rparr>))))"

text \<open>The cursor loop of \<^verbatim>\<open>getRange\<close> once the skip is done: \<open>items\<close> collected so far,
  then the records the cursor still has to visit.\<close>

fun range_loop :: "int \<Rightarrow> jsrecord list \<Rightarrow> jsrecord list \<Rightarrow> jsrecord list" where
  "range_loop takeN items [] = items"
| "range_loop takeN items (r # rest) =
     (if int (length items) < takeN then range_loop takeN (items @ [r]) rest else items)"

text \<open>The first success event: no cursor on an empty store, else
  \<^verbatim>\<open>cursor.advance(skip)\<close> when \<^verbatim>\<open>skip > 0\<close>.\<close>

definition after_skip :: "int \<Rightarrow> jsrecord list \<Rightarrow> jsrecord list" where
  "after_skip skip rs = (if rs \<noteq> [] \<and> skip > 0 then drop (nat skip) rs else rs)"

definition getRange ::
  "state \<Rightarrow> env \<Rightarrow> string \<Rightarrow> int \<Rightarrow> int \<Rightarrow> jsrecord list promise \<times> state" where
  "getRange s e collectionName skip takeN =
     (case getDatabase s e of
        (Inl err, s1) \<Rightarrow> (Rejected err, s1)
      | (Inr _, s1) \<Rightarrow>
          (case database s1 collectionName of
             None \<Rightarrow> (Rejected NotFoundError, called s1 [Transaction collectionName ReadOnly])
           | Some st \<Rightarrow>
               let s2 = called s1 [Transaction collectionName ReadOnly, OpenCursor collectionName]
               in if request_fails e 0 then (Rejected RequestError, s2)
                  else (Resolved (range_loop takeN [] (after_skip skip (records st))), s2)))"

text \<open>
  \<^verbatim>\<open>count(collectionName)\<close>. The \<^verbatim>\<open>catch\<close> receives what \<^verbatim>\<open>await getDatabase()\<close>
  throws; the promise built afterwards is returned without \<^verbatim>\<open>await\<close>, and both of its
  error handlers call \<^verbatim>\<open>reject\<close>.
\<close>

definition count :: "state \<Rightarrow> env \<Rightarrow> string \<Rightarrow> nat promise \<times> state" where
  "count s e collectionName =
     (case getDatabase s e of
        (Inl err, s1) \<Rightarrow> (Resolved 0, s1)
      | (Inr _, s1) \<Rightarrow>
          (case database s1 collectionName of
             None \<Rightarrow> (Rejected NotFoundError, called s1 [Transaction collectionName ReadOnly])
           | Some st \<Rightarrow>
               let s2 = called s1 [Transaction collectionName ReadOnly, Count collectionName]
               in if request_fails e 0 then (Rejected RequestError, s2)
                  else (Resolved (length (records st)), s2)))"

text \<open>\<^verbatim>\<open>get(collectionName, id)\<close>; the result \<open>None\<close> is \<^verbatim>\<open>undefined\<close>.\<close>

definition get ::
  "state \<Rightarrow> env \<Rightarrow> string \<Rightarrow> jsid \<Rightarrow> jsrecord option promise \<times> state" where
  "get s e collectionName i =
     (if collectionName = [] \<or> i = IdUndefined then (Rejected MissingCollectionOrId, s)
      else
        (case (if CACHE_ENABLED then cache_hit (memoryCache s) (cacheKey collectionName i) (now e)
               else None) of
           Some v \<Rightarrow> (Resolved (Some v), s)
         | None \<Rightarrow>
             (case getDatabase s e of
                (Inl err, s1) \<Rightarrow> (Rejected err, s1)
              | (Inr _, s1) \<Rightarrow>
                  (case database s1 collectionName of
                     None \<Rightarrow>
                       (Rejected NotFoundError, called s1 [Transaction collectionName ReadOnly])
                   | Some st \<Rightarrow>
                       if \<not> valid_key i
                       then (Rejected DataError,
                             called s1 [Transaction collectionName ReadOnly,
                                        Get collectionName i])
                       else
                         let s2 = called s1 [Transaction collectionName ReadOnly,
                                             Get collectionName i]
                         in if request_fails e 0 then (Rejected RequestError, s2)
                            else
                              (case store_get (records st) i of
                                 None \<Rightarrow> (Resolved None, s2)
                               | Some r \<Rightarrow>
                                   (Resolved (Some r),
                                    if CACHE_ENABLED
                                    then s2\<lparr>memoryCache := (memoryCache s2)
                                           (cacheKey collectionName i \<mapsto>
                                              \<lparr>cvalue = r,
                                               expires = now_done e 0 + CACHE_TTL\<rparr>)\<rparr>
                                    else s2))))))"

text \<open>
  The cursor loop of \<^verbatim>\<open>getAllPagedByDate\<close> once the skip is done. It stops with
  \<open>False\<close> at \<^verbatim>\<open>resolve(items)\<close> inside the loop, and with \<open>True\<close> when the cursor
  has no record left.
\<close>

fun paged_loop :: "int \<Rightarrow> jsrecord list \<Rightarrow> jsrecord list \<Rightarrow> jsrecord list \<times> bool" where
  "paged_loop takeN items [] = (items, True)"
| "paged_loop takeN items (r # rest) =
     (if int (length (items @ [r])) \<ge> takeN then (items @ [r], False)
      else paged_loop takeN (items @ [r]) rest)"

text \<open>\<^verbatim>\<open>items.slice(0, take)\<close>: a negative end counts from the end of the array.\<close>

definition slice0 :: "'a list \<Rightarrow> int \<Rightarrow> 'a list" where
  "slice0 xs n = (if n < 0 then take (nat (int (length xs) + n)) xs else take (nat n) xs)"

text \<open>\<^verbatim>\<open>items.sort((a, b) => new Date(b.UploadDate) - new Date(a.UploadDate))\<close>: a stable
  sort, latest date first.\<close>

definition sort_by_date_desc :: "jsrecord list \<Rightarrow> jsrecord list" where
  "sort_by_date_desc items = sort_key (\<lambda>r. - UploadDate r) items"

definition getAllPagedByDate ::
  "state \<Rightarrow> env \<Rightarrow> string \<Rightarrow> int \<Rightarrow> int \<Rightarrow> jsrecord list promise \<times> state" where
  "getAllPagedByDate s e collectionName skip takeN =
     (case getDatabase s e of
        (Inl err, s1) \<Rightarrow> (Rejected err, s1)
      | (Inr _, s1) \<Rightarrow>
          (case database s1 collectionName of
             None \<Rightarrow> (Rejected NotFoundError, called s1 [Transaction collectionName ReadOnly])
           | Some st \<Rightarrow>
               let index = has_index st;
                   s2 = called s1 [Transaction collectionName ReadOnly,
                                   if index then OpenIndexCursor collectionName
                                   else OpenCursor collectionName];
                   cursorSource = (if index then index_prev (records st) else records st)
               in if request_fails e 0 then (Rejected RequestError, s2)
                  else
                    (case paged_loop takeN [] (after_skip skip cursorSource) of
                       (items, False) \<Rightarrow> (Resolved items, s2)
                     | (items, True) \<Rightarrow>
                         (Resolved (slice0 (if index then items else sort_by_date_desc items)
                                      takeN), s2))))"

text \<open>
  \<^verbatim>\<open>deleteRecord(collectionName, id)\<close>: resolved by the success of the delete request;
  when the transaction aborts afterwards the deletion is undone.
\<close>

definition deleteRecord :: "state \<Rightarrow> env \<Rightarrow> string \<Rightarrow> jsid \<Rightarrow> bool promise \<times> state" where
  "deleteRecord s e collectionName i =
     (case getDatabase s e of
        (Inl err, s1) \<Rightarrow> (Rejected err, s1)
      | (Inr _, s1) \<Rightarrow>
          (case database s1 collectionName of
             None \<Rightarrow> (Rejected NotFoundError, called s1 [Transaction collectionName ReadWrite])
           | Some st \<Rightarrow>
               if \<not> valid_key i
               then (Rejected DataError,
                     called s1 [Transaction collectionName ReadWrite, Delete collectionName i])
               else
                 let s2 = called s1 [Transaction collectionName ReadWrite,
                                     Delete collectionName i]
                 in if request_fails e 0 then (Rejected RequestError, s2)
                    else if commit_fails e then (Resolved True, s2)
                    else (Resolved True,
                          (called s2 [Complete collectionName])
                            \<lparr>database := (database s2)(collectionName \<mapsto>
                               st\<lparr>records := store_delete (records st) i\<rparr>)\<rparr>)))"

text \<open>
  \<^verbatim>\<open>clearCache(collectionName = null)\<close>; \<open>None\<close> is the omitted argument, and
  \<^verbatim>\<open>!collectionName\<close> holds for it and for the empty string. Otherwise every key that
  starts with \<^verbatim>\<open>`${collectionName}:`\<close> is deleted.
\<close>

definition clearCache :: "state \<Rightarrow> string option \<Rightarrow> state" where
  "clearCache s collectionName =
     (case collectionName of
        None \<Rightarrow> s\<lparr>memoryCache := Map.empty\<rparr>
      | Some c \<Rightarrow>
          if c = [] then s\<lparr>memoryCache := Map.empty\<rparr>
          else s\<lparr>memoryCache :=
                   (\<lambda>key. if prefix (c @ '':'') key then None else memoryCache s key)\<rparr>)"

subsection \<open>getBulk\<close>

text \<open>The first loop of \<^verbatim>\<open>getBulk\<close> fills \<^verbatim>\<open>results\<close> and \<^verbatim>\<open>missingIds\<close>.\<close>

fun cached_results :: "string \<Rightarrow> (string \<rightharpoonup> cache_entry) \<Rightarrow> int \<Rightarrow> jsid list \<Rightarrow> jsval list" where
  "cached_results c m t [] = []"
| "cached_results c m t (i # ids) =
     (case cache_hit m (cacheKey c i) t of
        Some v \<Rightarrow> Object v # cached_results c m t ids
      | None \<Rightarrow> cached_results c m t ids)"

fun missing_ids :: "string \<Rightarrow> (string \<rightharpoonup> cache_entry) \<Rightarrow> int \<Rightarrow> jsid list \<Rightarrow> jsid list" where
  "missing_ids c m t [] = []"
| "missing_ids c m t (i # ids) =
     (case cache_hit m (cacheKey c i) t of
        Some v \<Rightarrow> missing_ids c m t ids
      | None \<Rightarrow> i # missing_ids c m t ids)"

text \<open>
  The promise made for the n-th missing id: \<open>None\<close> when \<^verbatim>\<open>store.get(id)\<close> throws (the
  promise is rejected), \<^verbatim>\<open>null\<close> from \<^verbatim>\<open>onerror\<close>, \<^verbatim>\<open>request.result\<close> from
  \<^verbatim>\<open>onsuccess\<close>, which is \<^verbatim>\<open>undefined\<close> when the store has no such record.
\<close>

definition fetch :: "jsrecord list \<Rightarrow> env \<Rightarrow> nat \<Rightarrow> jsid \<Rightarrow> jsval option" where
  "fetch rs e n i =
     (if \<not> valid_key i then None
      else if request_fails e n then Some Null
      else (case store_get rs i of None \<Rightarrow> Some Undefined | Some r \<Rightarrow> Some (Object r)))"

fun fetch_all :: "jsrecord list \<Rightarrow> env \<Rightarrow> nat \<Rightarrow> jsid list \<Rightarrow> jsval option list" where
  "fetch_all rs e n [] = []"
| "fetch_all rs e n (i # ids) = fetch rs e n i # fetch_all rs e (Suc n) ids"

text \<open>The success handlers cache every record found, in the order of the requests.\<close>

fun cache_fetched ::
  "string \<Rightarrow> env \<Rightarrow> nat \<Rightarrow> jsid list \<Rightarrow> jsval option list \<Rightarrow> (string \<rightharpoonup> cache_entry)
     \<Rightarrow> (string \<rightharpoonup> cache_entry)" where
  "cache_fetched c e n (i # ids) (Some (Object r) # vs) m =
     cache_fetched c e (Suc n) ids vs
       (if CACHE_ENABLED
        then m(cacheKey c i \<mapsto> \<lparr>cvalue = r, expires = now_done e n + CACHE_TTL\<rparr>)
        else m)"
| "cache_fetched c e n (i # ids) (v # vs) m = cache_fetched c e (Suc n) ids vs m"
| "cache_fetched c e n _ _ m = m"

text \<open>
  \<^verbatim>\<open>getBulk(collectionName, ids)\<close>. Every failure inside the \<^verbatim>\<open>try\<close>, the rejection of
  \<^verbatim>\<open>Promise.all\<close> included, ends in \<^verbatim>\<open>return []\<close>. The result keeps every item that is
  not \<^verbatim>\<open>null\<close>.
\<close>

definition getBulk :: "state \<Rightarrow> env \<Rightarrow> string \<Rightarrow> jsarg \<Rightarrow> jsval list promise \<times> state" where
  "getBulk s e collectionName ids =
     (case ids of
        NotArray \<Rightarrow> (Resolved [], s)
      | Array l \<Rightarrow>
          if l = [] then (Resolved [], s)
          else
            (case getDatabase s e of
               (Inl err, s1) \<Rightarrow> (Resolved [], s1)
             | (Inr _, s1) \<Rightarrow>
                 let results = (if CACHE_ENABLED
                                then cached_results collectionName (memoryCache s1) (now e) l
                                else []);
                     missingIds = (if CACHE_ENABLED
                                   then missing_ids collectionName (memoryCache s1) (now e) l
                                   else l)
                 in if missingIds = [] then (Resolved results, s1)
                    else
                      (case database s1 collectionName of
                         None \<Rightarrow>
                           (Resolved [], called s1 [Transaction collectionName ReadOnly])
                       | Some st \<Rightarrow>
                           let dbResults = fetch_all (records st) e 0 missingIds;
                               s2 = (called s1 (Transaction collectionName ReadOnly
                                       # map (Get collectionName) missingIds))
                                     \<lparr>memoryCache :=
                                        cache_fetched collectionName e 0 missingIds dbResults
                                          (memoryCache s1)\<rparr>
                           in (case those dbResults of
                                 None \<Rightarrow> (Resolved [], s2)
                               | Some items \<Rightarrow>
                                   (Resolved (results @ filter (\<lambda>item. item \<noteq> Null) items),
                                    s2)))))"

section \<open>Concrete stores, environments and states\<close>

text \<open>Two versions of the record \<^verbatim>\<open>a\<close> and a later record \<^verbatim>\<open>b\<close> (1 January and
  1 June 2024, in milliseconds).\<close>

definition ex_old :: jsrecord where
  "ex_old = \<lparr>rec_id = IdStr ''a'', UploadDate = 1704067200000, payload = ''old''\<rparr>"

definition ex_new :: jsrecord where
  "ex_new = \<lparr>rec_id = IdStr ''a'', UploadDate = 1704067200000, payload = ''new''\<rparr>"

definition ex_b :: jsrecord where
  "ex_b = \<lparr>rec_id = IdStr ''b'', UploadDate = 1717200000000, payload = ''later''\<rparr>"

definition ex_xy :: jsrecord where
  "ex_xy = \<lparr>rec_id = IdStr ''x:y'', UploadDate = 1717200000000, payload = ''colon''\<rparr>"

text \<open>Nothing fails; the operation runs at time \<open>t\<close>.\<close>

definition ex_env :: "int \<Rightarrow> env" where
  "ex_env t = \<lparr>open_fails = False, request_fails = (\<lambda>n. False), commit_fails = False,
                now = t, now_done = (\<lambda>n. t)\<rparr>"

text \<open>The first request fails; the database cannot be opened; the transaction aborts at
  commit.\<close>

definition ex_env_request_fails :: env where
  "ex_env_request_fails = (ex_env 0)\<lparr>request_fails := (\<lambda>n. True)\<rparr>"

definition ex_env_open_fails :: env where
  "ex_env_open_fails = (ex_env 0)\<lparr>open_fails := True\<rparr>"

definition ex_env_commit_fails :: env where
  "ex_env_commit_fails = (ex_env 0)\<lparr>commit_fails := True\<rparr>"

text \<open>A fresh page: no connection, an empty cache, \<^verbatim>\<open>ImageData\<close> with its index and
  \<^verbatim>\<open>Mosaic\<close> without one.\<close>

definition ex_state :: state where
  "ex_state =
     \<lparr>dbConnection = False, memoryCache = Map.empty,
      database = [''ImageData'' \<mapsto> \<lparr>records = [ex_old, ex_b, ex_xy], has_index = True\<rparr>,
                  ''Mosaic'' \<mapsto> \<lparr>records = [ex_old, ex_b], has_index = False\<rparr>],
      calls = []\<rparr>"

text \<open>The page after \<^verbatim>\<open>get("ImageData", "a")\<close> at time 0, and after
  \<^verbatim>\<open>get("ImageData", "x:y")\<close> at time 0.\<close>

definition ex_state_cached :: state where
  "ex_state_cached = snd (get ex_state (ex_env 0) ''ImageData'' (IdStr ''a''))"

definition ex_state_cached_xy :: state where
  "ex_state_cached_xy = snd (get ex_state (ex_env 0) ''ImageData'' (IdStr ''x:y''))"

section \<open>Facts about the store and the connection\<close>

lemmas ex_defs = ex_old_def ex_new_def ex_b_def ex_xy_def ex_env_def ex_env_request_fails_def
  ex_env_open_fails_def ex_env_commit_fails_def ex_state_def ex_state_cached_def
  ex_state_cached_xy_def

lemmas op_defs = get_def set_op_def getDatabase_def called_def cache_hit_def cacheKey_def
  CACHE_ENABLED_def CACHE_TTL_def store_get_def

lemma store_get_put: "store_get (store_put rs r) (rec_id r) = Some r"
  by (induction rs) (simp_all add: store_get_def)

lemma getDatabase_ok:
  "dbConnection s \<or> \<not> open_fails e \<Longrightarrow>
   getDatabase s e =
     (Inr (), (if dbConnection s then s else (called s [Open])\<lparr>dbConnection := True\<rparr>))"
  by (auto simp: getDatabase_def)

lemma range_loop_take:
  "range_loop takeN items rest = items @ take (nat (takeN - int (length items))) rest"
proof (induction rest arbitrary: items)
  case Nil
  show ?case by simp
next
  case (Cons r rest)
  show ?case
  proof (cases "int (length items) < takeN")
    case True
    then have "nat (takeN - int (length items)) =
               Suc (nat (takeN - int (length (items @ [r]))))"
      by simp
    with True Cons show ?thesis by simp
  next
    case False
    then show ?thesis by simp
  qed
qed

lemma after_skip_drop: "after_skip skip rs = drop (nat skip) rs"
  by (simp add: after_skip_def)

lemma set_op_cache: "memoryCache (snd (set_op s e c v)) = memoryCache s"
  by (simp add: set_op_def getDatabase_def called_def Let_def split: option.splits)

lemma deleteRecord_cache: "memoryCache (snd (deleteRecord s e c i)) = memoryCache s"
  by (simp add: deleteRecord_def getDatabase_def called_def Let_def split: option.splits)

lemma get_hit:
  assumes "cache_hit (memoryCache s) (cacheKey c i) (now e) = Some x"
    and "c \<noteq> []" and "i \<noteq> IdUndefined"
  shows "get s e c i = (Resolved (Some x), s)"
  using assms by (simp add: get_def CACHE_ENABLED_def)

lemma partition_length:
  "length (cached_results c m t l) + length (missing_ids c m t l) = length l"
  by (induction l) (simp_all split: option.splits)

lemma cached_results_mem:
  "x \<in> set (cached_results c m t l) \<Longrightarrow>
   \<exists>r. x = Object r \<and> (\<exists>i\<in>set l. cache_hit m (cacheKey c i) t = Some r)"
  by (induction l) (auto split: option.splits)

lemma missing_ids_subset: "set (missing_ids c m t l) \<subseteq> set l"
  by (induction l) (auto split: option.splits)

lemma fetch_all_length: "length (fetch_all rs e n ids) = length ids"
  by (induction ids arbitrary: n) simp_all

lemma fetch_all_mem:
  "Some (Object r) \<in> set (fetch_all rs e n ids) \<Longrightarrow>
   \<exists>i\<in>set ids. valid_key i \<and> store_get rs i = Some r"
  by (induction ids arbitrary: n) (auto simp: fetch_def split: if_splits option.splits)

lemma those_Some: "those vs = Some items \<Longrightarrow> vs = map Some items"
  by (induction vs arbitrary: items) (auto split: option.splits)

lemma store_get_id: "store_get rs i = Some r \<Longrightarrow> rec_id r = i"
  by (auto simp: store_get_def find_Some_iff)

lemma store_get_put_other:
  "k \<noteq> rec_id r \<Longrightarrow> store_get (store_put rs r) k = store_get rs k"
  by (induction rs) (auto simp: store_get_def)

lemma colon_free_prefix:
  "prefix (c @ [a]) (c' @ a # x) \<Longrightarrow> a \<notin> set c \<Longrightarrow> a \<notin> set c' \<Longrightarrow> c = c'"
proof (induction c arbitrary: c')
  case Nil
  then show ?case by (cases c') auto
next
  case (Cons z zs)
  then show ?case by (cases c') auto
qed

section \<open>Read after write\<close>

text \<open>
  C1, as stated, at a concrete page: \<^verbatim>\<open>get("ImageData", "a")\<close> at time 0 has cached the
  old version of the record; \<^verbatim>\<open>set\<close> at time 1 resolves \<^verbatim>\<open>true\<close> with the new version;
  \<^verbatim>\<open>get\<close> at time 2, inside the entry's window, returns the old version.
\<close>

theorem stale_read_after_write:
  "fst (set_op ex_state_cached (ex_env 1) ''ImageData'' (Some ex_new)) = Resolved True \<and>
   fst (get (snd (set_op ex_state_cached (ex_env 1) ''ImageData'' (Some ex_new))) (ex_env 2)
          ''ImageData'' (rec_id ex_new)) = Resolved (Some ex_old) \<and>
   ex_old \<noteq> ex_new"
  by (simp add: ex_defs op_defs)

text \<open>
  C1, amended: after \<^verbatim>\<open>set(collection, record)\<close> has resolved, a \<^verbatim>\<open>get\<close> of the record's
  id whose store read does not fail returns the record that was written when the cache
  holds no unexpired entry under the key \<^verbatim>\<open>collection:id\<close>, and the value of that entry,
  cached before the write, when it does.
\<close>

theorem set_then_get:
  assumes written: "set_op s e c (Some r) = (Resolved True, s')"
    and ok: "\<not> request_fails e' 0"
  shows "fst (get s' e' c (rec_id r)) =
           Resolved (Some (case cache_hit (memoryCache s) (cacheKey c (rec_id r)) (now e') of
                             None \<Rightarrow> r
                           | Some cached \<Rightarrow> cached))"
proof -
  from written have c: "c \<noteq> []" and t: "truthy (rec_id r)"
    by (auto simp: set_op_def split: if_splits)
  from t have k: "valid_key (rec_id r)" and u: "rec_id r \<noteq> IdUndefined"
    by (cases "rec_id r"; simp)+
  from written c t obtain st where
    conn: "dbConnection s'" and
    db: "database s' c = Some (st\<lparr>records := store_put (records st) r\<rparr>)"
    by (auto simp: set_op_def getDatabase_def called_def Let_def
             split: if_splits option.splits prod.splits sum.splits)
  have cache: "memoryCache s' = memoryCache s"
    using set_op_cache [of s e c "Some r"] written by simp
  show ?thesis
  proof (cases "cache_hit (memoryCache s) (cacheKey c (rec_id r)) (now e')")
    case None
    then show ?thesis
      using c u k ok conn db cache
      by (simp add: get_def getDatabase_def called_def store_get_put CACHE_ENABLED_def)
  next
    case (Some cached)
    then have "get s' e' c (rec_id r) = (Resolved (Some cached), s')"
      using c u cache by (simp add: get_hit)
    with Some show ?thesis by simp
  qed
qed

theorem set_then_get_witness:
  "fst (get (snd (set_op ex_state (ex_env 1) ''ImageData'' (Some ex_new))) (ex_env 2)
          ''ImageData'' (IdStr ''a'')) = Resolved (Some ex_new) \<and>
   fst (get (snd (set_op ex_state_cached (ex_env 1) ''ImageData'' (Some ex_new))) (ex_env 2)
          ''ImageData'' (IdStr ''a'')) = Resolved (Some ex_old)"
proof -
  let ?s' = "snd (set_op ex_state (ex_env 1) ''ImageData'' (Some ex_new))"
  let ?t' = "snd (set_op ex_state_cached (ex_env 1) ''ImageData'' (Some ex_new))"
  have written: "set_op ex_state (ex_env 1) ''ImageData'' (Some ex_new) = (Resolved True, ?s')"
    by (simp add: ex_defs op_defs)
  have rewritten:
    "set_op ex_state_cached (ex_env 1) ''ImageData'' (Some ex_new) = (Resolved True, ?t')"
    by (simp add: ex_defs op_defs)
  have miss: "cache_hit (memoryCache ex_state) (cacheKey ''ImageData'' (rec_id ex_new))
                (now (ex_env 2)) = None"
    by (simp add: ex_defs op_defs)
  have hit: "cache_hit (memoryCache ex_state_cached) (cacheKey ''ImageData'' (rec_id ex_new))
               (now (ex_env 2)) = Some ex_old"
    by (simp add: ex_defs op_defs)
  have ok: "\<not> request_fails (ex_env 2) 0"
    by (simp add: ex_env_def)
  from set_then_get [OF written ok] set_then_get [OF rewritten ok] miss hit show ?thesis
    by (simp add: ex_new_def)
qed

section \<open>Paging by date\<close>

lemma paged_loop_take: "\<exists>k. fst (paged_loop takeN items rest) = items @ take k rest"
proof (induction rest arbitrary: items)
  case Nil
  show ?case by simp
next
  case (Cons r rest)
  show ?case
  proof (cases "int (length (items @ [r])) \<ge> takeN")
    case True
    then have "fst (paged_loop takeN items (r # rest)) = items @ take 1 (r # rest)"
      by simp
    then show ?thesis by blast
  next
    case False
    from Cons [of "items @ [r]"] obtain k where
      "fst (paged_loop takeN (items @ [r]) rest) = (items @ [r]) @ take k rest"
      by blast
    with False have "fst (paged_loop takeN items (r # rest)) = items @ take (Suc k) (r # rest)"
      by simp
    then show ?thesis by blast
  qed
qed

lemma index_prev_sorted: "sorted_wrt (\<lambda>a b. UploadDate b \<le> UploadDate a) (index_prev rs)"
proof -
  have "sorted (map UploadDate (sort_key UploadDate rs))"
    by simp
  then have "sorted_wrt (\<lambda>a b. UploadDate a \<le> UploadDate b) (sort_key UploadDate rs)"
    by (simp add: sorted_map)
  then show ?thesis
    by (simp add: index_prev_def sorted_wrt_rev)
qed

lemma slice0_sorted: "sorted_wrt P xs \<Longrightarrow> sorted_wrt P (slice0 xs n)"
  by (simp add: slice0_def sorted_wrt_take)

text \<open>With the index the page is in non-increasing \<^verbatim>\<open>UploadDate\<close> order, for every
  \<^verbatim>\<open>skip\<close> and \<^verbatim>\<open>take\<close>.\<close>

lemma getAllPagedByDate_index_sorted:
  assumes conn: "dbConnection s \<or> \<not> open_fails e"
    and store: "database s c = Some st" and idx: "has_index st"
    and ok: "\<not> request_fails e 0"
  shows "\<exists>items. fst (getAllPagedByDate s e c skip takeN) = Resolved items \<and>
           sorted_wrt (\<lambda>a b. UploadDate b \<le> UploadDate a) items"
proof -
  let ?src = "after_skip skip (index_prev (records st))"
  obtain k where k: "fst (paged_loop takeN [] ?src) = take k ?src"
    using paged_loop_take [of takeN "[]" ?src] by auto
  have s: "sorted_wrt (\<lambda>a b. UploadDate b \<le> UploadDate a) (take k ?src)"
    by (simp add: after_skip_drop sorted_wrt_take sorted_wrt_drop index_prev_sorted)
  obtain items b where p: "paged_loop takeN [] ?src = (items, b)"
    by (cases "paged_loop takeN [] ?src")
  with k have items: "items = take k ?src"
    by simp
  have "fst (getAllPagedByDate s e c skip takeN) =
          Resolved (if b then slice0 items takeN else items)"
    using store idx ok p
    by (simp add: getAllPagedByDate_def getDatabase_ok [OF conn] called_def Let_def)
  moreover have "sorted_wrt (\<lambda>a b. UploadDate b \<le> UploadDate a)
                   (if b then slice0 items takeN else items)"
    using s unfolding items by (simp only: slice0_sorted if_split) simp
  ultimately show ?thesis by blast
qed

text \<open>Without the index, a page that the cursor does not fill is sorted: the scenario
  \<^verbatim>\<open>getAllPagedByDate(collection, 0, 10)\<close> on the two records gives \<^verbatim>\<open>b\<close>, then
  \<^verbatim>\<open>a\<close>.\<close>

lemma getAllPagedByDate_fallback_exhausted:
  "fst (getAllPagedByDate ex_state (ex_env 0) ''Mosaic'' 0 10) = Resolved [ex_b, ex_old]"
  by (simp add: getAllPagedByDate_def after_skip_def sort_by_date_desc_def slice0_def
        ex_defs getDatabase_def called_def)

text \<open>
  C2, at the failing input: \<^verbatim>\<open>Mosaic\<close> has no \<^verbatim>\<open>UploadDate\<close> index and holds the
  records \<^verbatim>\<open>a\<close> (1 January 2024) and \<^verbatim>\<open>b\<close> (1 June 2024). With \<^verbatim>\<open>skip = 0\<close> and
  \<^verbatim>\<open>take = 2\<close> the cursor loop reaches \<^verbatim>\<open>items.length >= take\<close> and resolves there,
  before the sort of the fallback: the page is \<^verbatim>\<open>a\<close>, then \<^verbatim>\<open>b\<close>, in increasing
  \<^verbatim>\<open>UploadDate\<close> order, where the claim requires non-increasing order.
\<close>

theorem getAllPagedByDate_fallback_unsorted:
  "fst (getAllPagedByDate ex_state (ex_env 0) ''Mosaic'' 0 2) = Resolved [ex_old, ex_b] \<and>
   UploadDate ex_old < UploadDate ex_b"
  by (simp add: getAllPagedByDate_def after_skip_def sort_by_date_desc_def slice0_def
        ex_defs getDatabase_def called_def)

section \<open>count\<close>

text \<open>What \<^verbatim>\<open>count\<close> does in each case: only a connection that cannot be opened reaches
  the \<^verbatim>\<open>catch\<close> and its \<^verbatim>\<open>Promise.resolve(0)\<close>.\<close>

lemma count_outcomes:
  "fst (count s e c) =
     (if \<not> dbConnection s \<and> open_fails e then Resolved 0
      else (case database s c of
              None \<Rightarrow> Rejected NotFoundError
            | Some st \<Rightarrow>
                if request_fails e 0 then Rejected RequestError
                else Resolved (length (records st))))"
  by (simp add: count_def getDatabase_def called_def split: option.splits)

text \<open>
  C3, at the failing inputs. \<^verbatim>\<open>count("Nope")\<close> on a database that has no object store
  \<^verbatim>\<open>Nope\<close>: \<^verbatim>\<open>db.transaction\<close> throws inside the promise executor, the promise is
  rejected, and since it is returned without \<^verbatim>\<open>await\<close> the \<^verbatim>\<open>catch\<close> with its
  \<^verbatim>\<open>Promise.resolve(0)\<close> is never reached: \<^verbatim>\<open>count\<close> rejects. A count request that fails
  on \<^verbatim>\<open>ImageData\<close> rejects in the same way. The claim requires 0 in both cases, which is
  what the code gives on its sibling path, a connection that cannot be opened.
\<close>

theorem count_rejects_instead_of_zero:
  "database ex_state ''Nope'' = None \<and>
   fst (count ex_state (ex_env 0) ''Nope'') = Rejected NotFoundError \<and>
   fst (count ex_state ex_env_request_fails ''ImageData'') = Rejected RequestError \<and>
   fst (count ex_state ex_env_open_fails ''ImageData'') = Resolved 0 \<and>
   fst (count ex_state (ex_env 0) ''ImageData'') = Resolved 3"
  by (simp add: count_def ex_defs getDatabase_def called_def)

section \<open>getBulk\<close>

text \<open>An id the store does not hold leaves \<^verbatim>\<open>undefined\<close> in the result: the filter
  only removes \<^verbatim>\<open>null\<close>.\<close>

lemma getBulk_keeps_undefined:
  "fst (getBulk ex_state (ex_env 0) ''ImageData'' (Array [IdStr ''a'', IdStr ''zz'']))
     = Resolved [Object ex_old, Undefined]"
  by (simp add: getBulk_def fetch_def ex_defs op_defs)

text \<open>
  C4, as stated, at a concrete page: the id \<^verbatim>\<open>a\<close> requested twice gives two entries,
  more than the one distinct id requested.
\<close>

theorem getBulk_repeated_ids:
  "fst (getBulk ex_state (ex_env 0) ''ImageData'' (Array [IdStr ''a'', IdStr ''a'']))
     = Resolved [Object ex_old, Object ex_old] \<and>
   card (set [IdStr ''a'', IdStr ''a'']) = 1"
  by (simp add: getBulk_def fetch_def ex_defs op_defs)

text \<open>
  C4, amended: \<^verbatim>\<open>getBulk(collection, ids)\<close> always resolves; its result never has more
  entries than \<^verbatim>\<open>ids\<close> has elements, repeats counted; it never holds \<^verbatim>\<open>null\<close>, which is
  what a failed fetch leaves; and every record in it is, for some requested id, either
  the unexpired value cached under \<^verbatim>\<open>collection:id\<close> or the record the store holds
  under that id.
\<close>

theorem getBulk_bounds:
  "\<exists>items. fst (getBulk s e c (Array l)) = Resolved items \<and>
     length items \<le> length l \<and>
     Null \<notin> set items \<and>
     (\<forall>r. Object r \<in> set items \<longrightarrow>
        (\<exists>i\<in>set l. cache_hit (memoryCache s) (cacheKey c i) (now e) = Some r \<or>
           (valid_key i \<and> rec_id r = i \<and>
            (\<exists>st. database s c = Some st \<and> store_get (records st) i = Some r))))"
proof -
  let ?P = "\<lambda>items. length items \<le> length l \<and> Null \<notin> set items \<and>
     (\<forall>r. Object r \<in> set items \<longrightarrow>
        (\<exists>i\<in>set l. cache_hit (memoryCache s) (cacheKey c i) (now e) = Some r \<or>
           (valid_key i \<and> rec_id r = i \<and>
            (\<exists>st. database s c = Some st \<and> store_get (records st) i = Some r))))"
  let ?res = "cached_results c (memoryCache s) (now e) l"
  let ?mis = "missing_ids c (memoryCache s) (now e) l"
  have empty: "?P []"
    by simp
  have res: "?P ?res"
    using partition_length [of c "memoryCache s" "now e" l]
      cached_results_mem [of _ c "memoryCache s" "now e" l]
    by fastforce
  have both: "?P (?res @ filter (\<lambda>item. item \<noteq> Null) items)"
    if st: "database s c = Some st" and th: "those (fetch_all (records st) e 0 ?mis) = Some items"
    for st items
  proof -
    have vs: "fetch_all (records st) e 0 ?mis = map Some items"
      using th by (rule those_Some)
    then have "length items = length ?mis"
      using fetch_all_length [of "records st" e 0 ?mis] by simp
    then have len: "length (?res @ filter (\<lambda>item. item \<noteq> Null) items) \<le> length l"
      using partition_length [of c "memoryCache s" "now e" l]
        length_filter_le [of "\<lambda>item. item \<noteq> Null" items]
      by simp
    have nonull: "Null \<notin> set (?res @ filter (\<lambda>item. item \<noteq> Null) items)"
      using cached_results_mem [of Null c "memoryCache s" "now e" l] by auto
    have mem: "\<exists>i\<in>set l. cache_hit (memoryCache s) (cacheKey c i) (now e) = Some r \<or>
           (valid_key i \<and> rec_id r = i \<and>
            (\<exists>st. database s c = Some st \<and> store_get (records st) i = Some r))"
      if r: "Object r \<in> set (?res @ filter (\<lambda>item. item \<noteq> Null) items)" for r
    proof (cases "Object r \<in> set ?res")
      case True
      then show ?thesis
        using cached_results_mem [of "Object r" c "memoryCache s" "now e" l] by auto
    next
      case False
      with r have "Object r \<in> set items"
        by auto
      then have "Some (Object r) \<in> set (fetch_all (records st) e 0 ?mis)"
        by (simp add: vs)
      then obtain i where i: "i \<in> set ?mis" "valid_key i" "store_get (records st) i = Some r"
        using fetch_all_mem by blast
      then have "i \<in> set l"
        using missing_ids_subset by blast
      with i st store_get_id [OF i(3)] show ?thesis by blast
    qed
    from len nonull mem show ?thesis by blast
  qed
  show ?thesis
  proof (cases "l = []")
    case True
    then show ?thesis by (simp add: getBulk_def)
  next
    case nonempty: False
    show ?thesis
    proof (cases "dbConnection s \<or> \<not> open_fails e")
      case False
      then have "fst (getBulk s e c (Array l)) = Resolved []"
        using nonempty by (simp add: getBulk_def getDatabase_def)
      with empty show ?thesis by simp
    next
      case conn: True
      show ?thesis
      proof (cases "?mis = []")
        case True
        then have "fst (getBulk s e c (Array l)) = Resolved ?res"
          using nonempty
          by (simp add: getBulk_def getDatabase_ok [OF conn] called_def CACHE_ENABLED_def)
        with res show ?thesis by simp
      next
        case mis: False
        show ?thesis
        proof (cases "database s c")
          case None
          then have "fst (getBulk s e c (Array l)) = Resolved []"
            using nonempty mis
            by (simp add: getBulk_def getDatabase_ok [OF conn] called_def CACHE_ENABLED_def)
          with empty show ?thesis by simp
        next
          case (Some st)
          show ?thesis
          proof (cases "those (fetch_all (records st) e 0 ?mis)")
            case None
            then have "fst (getBulk s e c (Array l)) = Resolved []"
              using nonempty mis Some
              by (simp add: getBulk_def getDatabase_ok [OF conn] called_def CACHE_ENABLED_def
                    Let_def)
            with empty show ?thesis by simp
          next
            case (Some items)
            then have "fst (getBulk s e c (Array l)) =
                         Resolved (?res @ filter (\<lambda>item. item \<noteq> Null) items)"
              using nonempty mis \<open>database s c = Some st\<close>
              by (simp add: getBulk_def getDatabase_ok [OF conn] called_def CACHE_ENABLED_def
                    Let_def)
            with both [OF \<open>database s c = Some st\<close> Some] show ?thesis by simp
          qed
        qed
      qed
    qed
  qed
qed

theorem getBulk_bounds_witness:
  "fst (getBulk ex_state_cached (ex_env 1) ''ImageData'' (Array [IdStr ''a'', IdStr ''b'']))
     = Resolved [Object ex_old, Object ex_b] \<and>
   (\<exists>i\<in>set [IdStr ''a'', IdStr ''b''].
      cache_hit (memoryCache ex_state_cached) (cacheKey ''ImageData'' i) (now (ex_env 1))
        = Some ex_b \<or>
      (valid_key i \<and> rec_id ex_b = i \<and>
       (\<exists>st. database ex_state_cached ''ImageData'' = Some st \<and>
             store_get (records st) i = Some ex_b)))"
proof -
  have run: "fst (getBulk ex_state_cached (ex_env 1) ''ImageData''
                    (Array [IdStr ''a'', IdStr ''b''])) = Resolved [Object ex_old, Object ex_b]"
    by (simp add: getBulk_def fetch_def ex_defs op_defs)
  from getBulk_bounds [of ex_state_cached "ex_env 1" "''ImageData''" "[IdStr ''a'', IdStr ''b'']"]
  obtain items where
    i: "fst (getBulk ex_state_cached (ex_env 1) ''ImageData''
               (Array [IdStr ''a'', IdStr ''b''])) = Resolved items" and
    m: "\<forall>r. Object r \<in> set items \<longrightarrow>
        (\<exists>i\<in>set [IdStr ''a'', IdStr ''b''].
           cache_hit (memoryCache ex_state_cached) (cacheKey ''ImageData'' i) (now (ex_env 1))
             = Some r \<or>
           (valid_key i \<and> rec_id r = i \<and>
            (\<exists>st. database ex_state_cached ''ImageData'' = Some st \<and>
                  store_get (records st) i = Some r)))"
    by blast
  from i run have "items = [Object ex_old, Object ex_b]"
    by simp
  then have "Object ex_b \<in> set items"
    by simp
  with m run show ?thesis by blast
qed

section \<open>Writes leave the cache alone\<close>

text \<open>
  C5: neither \<^verbatim>\<open>set\<close> nor \<^verbatim>\<open>deleteRecord\<close> changes \<^verbatim>\<open>memoryCache\<close>, whatever their
  arguments and outcome; so a \<^verbatim>\<open>get\<close> that was a cache hit before the write, the one for
  the key written or deleted included, is the same hit after it.
\<close>

theorem writes_keep_cache:
  assumes hit: "cache_hit (memoryCache s) (cacheKey c' i') (now e') = Some x"
    and c': "c' \<noteq> []" and i': "i' \<noteq> IdUndefined"
  shows "memoryCache (snd (set_op s e c v)) = memoryCache s \<and>
         memoryCache (snd (deleteRecord s e c i)) = memoryCache s \<and>
         fst (get (snd (set_op s e c v)) e' c' i') = Resolved (Some x) \<and>
         fst (get (snd (deleteRecord s e c i)) e' c' i') = Resolved (Some x)"
proof -
  have "cache_hit (memoryCache (snd (set_op s e c v))) (cacheKey c' i') (now e') = Some x"
    using hit by (simp only: set_op_cache)
  then have a: "fst (get (snd (set_op s e c v)) e' c' i') = Resolved (Some x)"
    using c' i' by (simp add: get_hit)
  have "cache_hit (memoryCache (snd (deleteRecord s e c i))) (cacheKey c' i') (now e') = Some x"
    using hit by (simp only: deleteRecord_cache)
  then have b: "fst (get (snd (deleteRecord s e c i)) e' c' i') = Resolved (Some x)"
    using c' i' by (simp add: get_hit)
  from a b show ?thesis by (simp add: set_op_cache deleteRecord_cache)
qed

theorem writes_keep_cache_witness:
  "fst (set_op ex_state_cached (ex_env 1) ''ImageData'' (Some ex_new)) = Resolved True \<and>
   fst (deleteRecord ex_state_cached (ex_env 1) ''ImageData'' (IdStr ''a'')) = Resolved True \<and>
   fst (get (snd (set_op ex_state_cached (ex_env 1) ''ImageData'' (Some ex_new))) (ex_env 2)
          ''ImageData'' (IdStr ''a'')) = Resolved (Some ex_old) \<and>
   fst (get (snd (deleteRecord ex_state_cached (ex_env 1) ''ImageData'' (IdStr ''a'')))
          (ex_env 2) ''ImageData'' (IdStr ''a'')) = Resolved (Some ex_old)"
proof -
  have hit: "cache_hit (memoryCache ex_state_cached) (cacheKey ''ImageData'' (IdStr ''a''))
               (now (ex_env 2)) = Some ex_old"
    by (simp add: ex_defs op_defs)
  have c: "''ImageData'' \<noteq> []" by simp
  have i: "IdStr ''a'' \<noteq> IdUndefined" by simp
  have w: "fst (set_op ex_state_cached (ex_env 1) ''ImageData'' (Some ex_new)) = Resolved True"
    by (simp add: ex_defs op_defs)
  have d: "fst (deleteRecord ex_state_cached (ex_env 1) ''ImageData'' (IdStr ''a'')) =
             Resolved True"
    by (simp add: ex_defs op_defs deleteRecord_def)
  from writes_keep_cache [OF hit c i, of "ex_env 1" "''ImageData''" "Some ex_new" "IdStr ''a''"]
    w d
  show ?thesis by simp
qed

section \<open>set\<close>

text \<open>
  C6, as stated, at a concrete page: the record has an \<^verbatim>\<open>id\<close> field, the number 0, which
  is a key the object store accepts; the collection exists and nothing fails. \<^verbatim>\<open>set\<close>
  rejects at \<^verbatim>\<open>!value.id\<close> and writes nothing, where the claim has valid inputs and
  requires the write. The same holds for the empty string as id.
\<close>

theorem set_op_rejects_falsy_id:
  "rec_id (ex_new\<lparr>rec_id := IdNum 0\<rparr>) \<noteq> IdUndefined \<and>
   valid_key (rec_id (ex_new\<lparr>rec_id := IdNum 0\<rparr>)) \<and>
   database ex_state ''ImageData'' \<noteq> None \<and>
   set_op ex_state (ex_env 0) ''ImageData'' (Some (ex_new\<lparr>rec_id := IdNum 0\<rparr>))
     = (Rejected MissingId, ex_state) \<and>
   set_op ex_state (ex_env 0) ''ImageData'' (Some (ex_new\<lparr>rec_id := IdStr []\<rparr>))
     = (Rejected MissingId, ex_state)"
  by (simp add: set_op_def ex_state_def)

text \<open>
  C6, amended: \<^verbatim>\<open>set(collection, record)\<close> rejects and leaves the whole state, the store
  included, as it was when the record is missing, the collection name is empty, or the
  record's \<^verbatim>\<open>id\<close> is missing or falsy (\<^verbatim>\<open>undefined\<close>, \<^verbatim>\<open>null\<close>, 0 or the empty string).
  With a record, a non-empty name and a truthy id, on a connection and an existing
  collection, it makes one read-write transaction with one put; it resolves \<^verbatim>\<open>true\<close>
  exactly when the put succeeds and the transaction completes, so a put that succeeds in a
  transaction that does not complete does not resolve it. When it resolves, the collection
  holds the record under its id, every other id of the collection reads as before, and
  every other collection is unchanged; when it does not resolve, the database is
  unchanged.
\<close>

theorem set_op_contract:
  "(v = None \<or> c = [] \<or> (\<exists>r. v = Some r \<and> \<not> truthy (rec_id r))
      \<longrightarrow> set_op s e c v =
            (Rejected (if v = None \<or> c = [] then MissingValueOrCollection else MissingId), s)) \<and>
   (\<forall>r st. v = Some r \<and> c \<noteq> [] \<and> truthy (rec_id r) \<and> (dbConnection s \<or> \<not> open_fails e)
             \<and> database s c = Some st
      \<longrightarrow> (fst (set_op s e c v) = Resolved True) = (\<not> request_fails e 0 \<and> \<not> commit_fails e) \<and>
          calls (snd (set_op s e c v)) =
            calls s @ (if dbConnection s then [] else [Open])
              @ [Transaction c ReadWrite, Put c r]
              @ (if fst (set_op s e c v) = Resolved True then [Complete c] else []) \<and>
          (if fst (set_op s e c v) = Resolved True
           then (\<exists>st'. database (snd (set_op s e c v)) c = Some st' \<and>
                   has_index st' = has_index st \<and>
                   records st' = store_put (records st) r \<and>
                   store_get (records st') (rec_id r) = Some r \<and>
                   (\<forall>k. k \<noteq> rec_id r \<longrightarrow>
                      store_get (records st') k = store_get (records st) k)) \<and>
                (\<forall>c'. c' \<noteq> c \<longrightarrow> database (snd (set_op s e c v)) c' = database s c')
           else database (snd (set_op s e c v)) = database s))"
proof (intro conjI impI allI)
  assume "v = None \<or> c = [] \<or> (\<exists>r. v = Some r \<and> \<not> truthy (rec_id r))"
  then show "set_op s e c v =
          (Rejected (if v = None \<or> c = [] then MissingValueOrCollection else MissingId), s)"
    by (auto simp: set_op_def split: option.splits)
next
  fix r st
  assume a: "v = Some r \<and> c \<noteq> [] \<and> truthy (rec_id r) \<and> (dbConnection s \<or> \<not> open_fails e)
             \<and> database s c = Some st"
  then have conn: "dbConnection s \<or> \<not> open_fails e"
    by simp
  have eq: "set_op s e c v =
      (let s1 = (if dbConnection s then s else (called s [Open])\<lparr>dbConnection := True\<rparr>);
           s2 = called s1 [Transaction c ReadWrite, Put c r]
       in if request_fails e 0 then (Rejected RequestError, s2)
          else if commit_fails e then (Pending, s2)
          else (Resolved True,
                (called s2 [Complete c])
                  \<lparr>database := (database s2)(c \<mapsto>
                     st\<lparr>records := store_put (records st) r\<rparr>)\<rparr>))"
    using a by (simp add: set_op_def getDatabase_ok [OF conn] called_def Let_def)
  show "(fst (set_op s e c v) = Resolved True) = (\<not> request_fails e 0 \<and> \<not> commit_fails e)"
    by (simp add: eq Let_def)
  show "calls (snd (set_op s e c v)) =
          calls s @ (if dbConnection s then [] else [Open])
            @ [Transaction c ReadWrite, Put c r]
            @ (if fst (set_op s e c v) = Resolved True then [Complete c] else [])"
    by (simp add: eq Let_def called_def)
  show "if fst (set_op s e c v) = Resolved True
        then (\<exists>st'. database (snd (set_op s e c v)) c = Some st' \<and>
                has_index st' = has_index st \<and>
                records st' = store_put (records st) r \<and>
                store_get (records st') (rec_id r) = Some r \<and>
                (\<forall>k. k \<noteq> rec_id r \<longrightarrow>
                   store_get (records st') k = store_get (records st) k)) \<and>
             (\<forall>c'. c' \<noteq> c \<longrightarrow> database (snd (set_op s e c v)) c' = database s c')
        else database (snd (set_op s e c v)) = database s"
  proof (cases "fst (set_op s e c v) = Resolved True")
    case True
    then have ok: "\<not> request_fails e 0" "\<not> commit_fails e"
      by (simp_all add: eq Let_def split: if_splits)
    have db: "database (snd (set_op s e c v)) =
                (database s)(c \<mapsto> st\<lparr>records := store_put (records st) r\<rparr>)"
      using ok by (simp add: eq Let_def called_def)
    have "\<exists>st'. database (snd (set_op s e c v)) c = Some st' \<and>
                has_index st' = has_index st \<and>
                records st' = store_put (records st) r \<and>
                store_get (records st') (rec_id r) = Some r \<and>
                (\<forall>k. k \<noteq> rec_id r \<longrightarrow>
                   store_get (records st') k = store_get (records st) k)"
      by (simp add: db store_get_put store_get_put_other)
    moreover have "\<forall>c'. c' \<noteq> c \<longrightarrow> database (snd (set_op s e c v)) c' = database s c'"
      by (simp add: db)
    ultimately show ?thesis
      using True by simp
  next
    case False
    then show ?thesis
      by (simp add: eq Let_def called_def split: if_splits)
  qed
qed

theorem set_op_contract_witness:
  "set_op ex_state (ex_env 0) ''ImageData'' None
     = (Rejected MissingValueOrCollection, ex_state) \<and>
   set_op ex_state (ex_env 0) [] (Some ex_new)
     = (Rejected MissingValueOrCollection, ex_state) \<and>
   set_op ex_state (ex_env 0) ''ImageData'' (Some (ex_new\<lparr>rec_id := IdUndefined\<rparr>))
     = (Rejected MissingId, ex_state) \<and>
   fst (set_op ex_state (ex_env 0) ''ImageData'' (Some ex_new)) = Resolved True \<and>
   calls (snd (set_op ex_state (ex_env 0) ''ImageData'' (Some ex_new))) =
     [Open, Transaction ''ImageData'' ReadWrite, Put ''ImageData'' ex_new,
      Complete ''ImageData''] \<and>
   database (snd (set_op ex_state (ex_env 0) ''ImageData'' (Some ex_new))) ''ImageData''
     = Some \<lparr>records = [ex_new, ex_b, ex_xy], has_index = True\<rparr> \<and>
   database (snd (set_op ex_state (ex_env 0) ''ImageData'' (Some ex_new))) ''Mosaic''
     = Some \<lparr>records = [ex_old, ex_b], has_index = False\<rparr> \<and>
   fst (set_op ex_state ex_env_commit_fails ''ImageData'' (Some ex_new)) \<noteq> Resolved True \<and>
   database (snd (set_op ex_state ex_env_commit_fails ''ImageData'' (Some ex_new)))
     = database ex_state"
proof -
  let ?st = "\<lparr>records = [ex_old, ex_b, ex_xy], has_index = True\<rparr>"
  let ?s' = "snd (set_op ex_state (ex_env 0) ''ImageData'' (Some ex_new))"
  have store: "database ex_state ''ImageData'' = Some ?st"
    by (simp add: ex_state_def)
  have other: "database ex_state ''Mosaic''
                 = Some \<lparr>records = [ex_old, ex_b], has_index = False\<rparr>"
    by (simp add: ex_state_def)
  have t: "truthy (rec_id ex_new)"
    by (simp add: ex_new_def)
  have u: "\<not> truthy (rec_id (ex_new\<lparr>rec_id := IdUndefined\<rparr>))"
    by simp
  have f: "\<not> dbConnection ex_state"
    by (simp add: ex_state_def)
  have e1: "\<not> open_fails (ex_env 0) \<and> \<not> request_fails (ex_env 0) 0 \<and>
            \<not> commit_fails (ex_env 0)"
    by (simp add: ex_env_def)
  have e2: "\<not> open_fails ex_env_commit_fails \<and> commit_fails ex_env_commit_fails"
    by (simp add: ex_env_def ex_env_commit_fails_def)
  have put: "store_put [ex_old, ex_b, ex_xy] ex_new = [ex_new, ex_b, ex_xy]"
    by (simp add: ex_old_def ex_new_def)
  note w = set_op_contract [of None "''ImageData''" ex_state "ex_env 0"]
    set_op_contract [of "Some ex_new" "[]" ex_state "ex_env 0"]
    set_op_contract [of "Some (ex_new\<lparr>rec_id := IdUndefined\<rparr>)" "''ImageData''" ex_state
      "ex_env 0"]
    set_op_contract [of "Some ex_new" "''ImageData''" ex_state "ex_env 0"]
    set_op_contract [of "Some ex_new" "''ImageData''" ex_state ex_env_commit_fails]
  have a: "set_op ex_state (ex_env 0) ''ImageData'' None
             = (Rejected MissingValueOrCollection, ex_state)"
    using w(1) by simp
  have b: "set_op ex_state (ex_env 0) [] (Some ex_new)
             = (Rejected MissingValueOrCollection, ex_state)"
    using w(2) by simp
  have c: "set_op ex_state (ex_env 0) ''ImageData'' (Some (ex_new\<lparr>rec_id := IdUndefined\<rparr>))
             = (Rejected MissingId, ex_state)"
    using w(3) u by simp
  have d: "fst (set_op ex_state (ex_env 0) ''ImageData'' (Some ex_new)) = Resolved True"
    using w(4) store t e1 by simp
  have d1: "calls ?s' =
              [Open, Transaction ''ImageData'' ReadWrite, Put ''ImageData'' ex_new,
               Complete ''ImageData'']"
    using w(4) store t e1 f d by (simp add: ex_state_def)
  from w(4) store t e1 d obtain st' where
    st': "database ?s' ''ImageData'' = Some st'" "has_index st' = has_index ?st"
      "records st' = store_put (records ?st) ex_new"
    and frame: "\<forall>c'. c' \<noteq> ''ImageData'' \<longrightarrow> database ?s' c' = database ex_state c'"
    by auto
  from st' put have d2: "database ?s' ''ImageData''
                           = Some \<lparr>records = [ex_new, ex_b, ex_xy], has_index = True\<rparr>"
    by (cases st') simp
  have d3: "database ?s' ''Mosaic'' = Some \<lparr>records = [ex_old, ex_b], has_index = False\<rparr>"
    using frame other by simp
  have g: "fst (set_op ex_state ex_env_commit_fails ''ImageData'' (Some ex_new))
             \<noteq> Resolved True"
    using w(5) store t e2 by simp
  have g': "database (snd (set_op ex_state ex_env_commit_fails ''ImageData'' (Some ex_new)))
              = database ex_state"
    using w(5) store t e2 g by simp
  from a b c d d1 d2 d3 g g' show ?thesis by simp
qed

section \<open>The cache window of get\<close>

text \<open>
  C7: when \<^verbatim>\<open>get(collection, id)\<close> misses the cache and reads a record from the store,
  it caches the record with \<^verbatim>\<open>expires = Date.now() + CACHE_TTL\<close>, the time being that of
  the read's completion. A following \<^verbatim>\<open>get\<close> of the same id that starts before
  \<^verbatim>\<open>expires\<close> returns the same record and leaves the state unchanged, the spy's record of
  calls included: no store read is made. One that starts at \<^verbatim>\<open>expires\<close> or later makes a
  new transaction and a new store read.
\<close>

theorem get_cache_ttl:
  assumes miss: "cache_hit (memoryCache s) (cacheKey c i) (now e) = None"
    and found: "get s e c i = (Resolved (Some r), s1)"
  shows "memoryCache s1 (cacheKey c i) =
           Some \<lparr>cvalue = r, expires = now_done e 0 + CACHE_TTL\<rparr> \<and>
         calls s1 = calls s @ (if dbConnection s then [] else [Open])
                      @ [Transaction c ReadOnly, Get c i] \<and>
         (if now e2 < now_done e 0 + CACHE_TTL
          then get s1 e2 c i = (Resolved (Some r), s1)
          else calls (snd (get s1 e2 c i)) = calls s1 @ [Transaction c ReadOnly, Get c i])"
proof -
  from found have c: "c \<noteq> []" and i: "i \<noteq> IdUndefined"
    by (auto simp: get_def split: if_splits)
  from found miss c i obtain st where
    conn: "dbConnection s \<or> \<not> open_fails e" and
    st: "database s c = Some st" and k: "valid_key i" and ok: "\<not> request_fails e 0" and
    r: "store_get (records st) i = Some r"
    by (auto simp: get_def getDatabase_def called_def CACHE_ENABLED_def Let_def
             split: if_splits option.splits)
  let ?s0 = "if dbConnection s then s else (called s [Open])\<lparr>dbConnection := True\<rparr>"
  have s1: "s1 = (called ?s0 [Transaction c ReadOnly, Get c i])\<lparr>memoryCache :=
                   (memoryCache s)(cacheKey c i \<mapsto>
                      \<lparr>cvalue = r, expires = now_done e 0 + CACHE_TTL\<rparr>)\<rparr>"
    using found miss c i st k ok r
    by (simp add: get_def getDatabase_ok [OF conn] called_def CACHE_ENABLED_def Let_def
             split: if_splits)
  have cached: "memoryCache s1 (cacheKey c i) =
                  Some \<lparr>cvalue = r, expires = now_done e 0 + CACHE_TTL\<rparr>"
    by (simp add: s1)
  have log: "calls s1 = calls s @ (if dbConnection s then [] else [Open])
                      @ [Transaction c ReadOnly, Get c i]"
    by (simp add: s1 called_def)
  have conn1: "dbConnection s1"
    using conn by (auto simp: s1 called_def)
  have st1: "database s1 c = Some st"
    using st by (simp add: s1 called_def)
  have third: "if now e2 < now_done e 0 + CACHE_TTL
          then get s1 e2 c i = (Resolved (Some r), s1)
          else calls (snd (get s1 e2 c i)) = calls s1 @ [Transaction c ReadOnly, Get c i]"
  proof (cases "now e2 < now_done e 0 + CACHE_TTL")
    case True
    then have "cache_hit (memoryCache s1) (cacheKey c i) (now e2) = Some r"
      by (simp add: cache_hit_def cached)
    with True c i show ?thesis by (simp add: get_hit)
  next
    case False
    then have "cache_hit (memoryCache s1) (cacheKey c i) (now e2) = None"
      by (simp add: cache_hit_def cached)
    with False c i conn1 st1 k r show ?thesis
      by (simp add: get_def getDatabase_def called_def CACHE_ENABLED_def Let_def)
  qed
  from cached log third show ?thesis by simp
qed

theorem get_cache_ttl_witness:
  "get ex_state_cached (ex_env 86399999) ''ImageData'' (IdStr ''a'')
     = (Resolved (Some ex_old), ex_state_cached) \<and>
   calls (snd (get ex_state_cached (ex_env 86400000) ''ImageData'' (IdStr ''a'')))
     = calls ex_state_cached
         @ [Transaction ''ImageData'' ReadOnly, Get ''ImageData'' (IdStr ''a'')]"
proof -
  have miss: "cache_hit (memoryCache ex_state) (cacheKey ''ImageData'' (IdStr ''a''))
                (now (ex_env 0)) = None"
    by (simp add: ex_state_def cache_hit_def)
  have found: "get ex_state (ex_env 0) ''ImageData'' (IdStr ''a'')
                 = (Resolved (Some ex_old), ex_state_cached)"
    by (simp add: ex_defs op_defs)
  from get_cache_ttl [OF miss found, of "ex_env 86399999"]
    get_cache_ttl [OF miss found, of "ex_env 86400000"]
  show ?thesis
    by (simp add: ex_env_def CACHE_TTL_def)
qed

section \<open>getRange\<close>

text \<open>
  C8: on an open (or openable) connection, an existing collection and a cursor that does
  not fail, \<^verbatim>\<open>getRange(collection, skip, take)\<close> resolves to the empty sequence when
  \<^verbatim>\<open>skip\<close> is at least the number of records or \<^verbatim>\<open>take\<close> is 0, and otherwise to the
  first \<^verbatim>\<open>take\<close> records, in the store's iteration order, of what follows the first
  \<^verbatim>\<open>skip\<close> records; it never holds more than \<^verbatim>\<open>take\<close> records.
\<close>

theorem getRange_window:
  assumes conn: "dbConnection s \<or> \<not> open_fails e"
    and store: "database s c = Some st"
    and ok: "\<not> request_fails e 0"
  shows "\<exists>items. fst (getRange s e c skip takeN) = Resolved items \<and>
           items = (if int (length (records st)) \<le> skip \<or> takeN = 0 then []
                    else take (nat takeN) (drop (nat skip) (records st))) \<and>
           int (length items) \<le> max 0 takeN"
proof -
  let ?w = "take (nat takeN) (drop (nat skip) (records st))"
  have "fst (getRange s e c skip takeN) = Resolved ?w"
    using store ok
    by (simp add: getRange_def getDatabase_ok [OF conn] called_def range_loop_take
          after_skip_drop)
  moreover have "?w = (if int (length (records st)) \<le> skip \<or> takeN = 0 then [] else ?w)"
    by auto
  moreover have "int (length ?w) \<le> max 0 takeN"
    by auto
  ultimately show ?thesis by metis
qed

theorem getRange_window_witness:
  "fst (getRange ex_state (ex_env 0) ''ImageData'' 1 1) = Resolved [ex_b]"
proof -
  have conn: "dbConnection ex_state \<or> \<not> open_fails (ex_env 0)"
    by (simp add: ex_env_def)
  have store: "database ex_state ''ImageData'' =
                 Some \<lparr>records = [ex_old, ex_b, ex_xy], has_index = True\<rparr>"
    by (simp add: ex_state_def)
  have ok: "\<not> request_fails (ex_env 0) 0"
    by (simp add: ex_env_def)
  from getRange_window [OF conn store ok, of 1 1] show ?thesis
    by simp
qed

section \<open>clearCache\<close>

text \<open>
  C9, as stated, at a concrete page: \<^verbatim>\<open>get("ImageData", "x:y")\<close> has cached its record
  under the key \<^verbatim>\<open>ImageData:x:y\<close>, a hit at time 1. \<^verbatim>\<open>clearCache("ImageData:x")\<close>
  deletes every key that starts with \<^verbatim>\<open>ImageData:x:\<close>, so the entry of the other
  collection \<^verbatim>\<open>ImageData\<close> is gone and the same lookup misses.
\<close>

theorem clearCache_removes_other_collection:
  "cache_hit (memoryCache ex_state_cached_xy) (cacheKey ''ImageData'' (IdStr ''x:y'')) 1
     = Some ex_xy \<and>
   cache_hit (memoryCache (clearCache ex_state_cached_xy (Some ''ImageData:x'')))
     (cacheKey ''ImageData'' (IdStr ''x:y'')) 1 = None \<and>
   ''ImageData'' \<noteq> ''ImageData:x''"
  by (simp add: ex_defs op_defs clearCache_def)

text \<open>
  C9, amended: \<^verbatim>\<open>clearCache\<close> with no argument, or with the empty name, removes all
  entries. With a non-empty collection name it removes exactly the entries whose key
  starts with the name followed by a colon and leaves every other entry unchanged; in
  particular, when neither name contains a colon, every entry of a different collection
  is unchanged and a lookup of it hits or misses as before.
\<close>

theorem clearCache_prefix:
  "memoryCache (clearCache s None) = Map.empty \<and>
   memoryCache (clearCache s (Some [])) = Map.empty \<and>
   (c \<noteq> [] \<longrightarrow>
      (\<forall>key. memoryCache (clearCache s (Some c)) key =
               (if prefix (c @ '':'') key then None else memoryCache s key)) \<and>
      (c' \<noteq> c \<and> CHR '':'' \<notin> set c \<and> CHR '':'' \<notin> set c' \<longrightarrow>
         memoryCache (clearCache s (Some c)) (cacheKey c' i) = memoryCache s (cacheKey c' i) \<and>
         cache_hit (memoryCache (clearCache s (Some c))) (cacheKey c' i) t =
           cache_hit (memoryCache s) (cacheKey c' i) t))"
proof (intro conjI impI allI)
  show "memoryCache (clearCache s None) = Map.empty"
    by (simp add: clearCache_def)
  show "memoryCache (clearCache s (Some [])) = Map.empty"
    by (simp add: clearCache_def)
next
  fix key
  assume "c \<noteq> []"
  then show "memoryCache (clearCache s (Some c)) key =
               (if prefix (c @ '':'') key then None else memoryCache s key)"
    by (simp add: clearCache_def)
next
  assume c: "c \<noteq> []" and o: "c' \<noteq> c \<and> CHR '':'' \<notin> set c \<and> CHR '':'' \<notin> set c'"
  have "\<not> prefix (c @ '':'') (cacheKey c' i)"
    using o colon_free_prefix [of c "CHR '':''" c' "to_string i"] by (auto simp: cacheKey_def)
  with c show keep: "memoryCache (clearCache s (Some c)) (cacheKey c' i) =
                       memoryCache s (cacheKey c' i)"
    by (simp add: clearCache_def)
  then show "cache_hit (memoryCache (clearCache s (Some c))) (cacheKey c' i) t =
               cache_hit (memoryCache s) (cacheKey c' i) t"
    by (simp add: cache_hit_def)
qed

theorem clearCache_prefix_witness:
  "memoryCache (clearCache ex_state_cached (Some ''ImageData''))
     (cacheKey ''ImageData'' (IdStr ''a'')) = None \<and>
   cache_hit (memoryCache (clearCache ex_state_cached (Some ''Mosaic'')))
     (cacheKey ''ImageData'' (IdStr ''a'')) 1 = Some ex_old"
proof -
  have n: "''ImageData'' \<noteq> []" "''Mosaic'' \<noteq> []"
    by simp_all
  have o: "''ImageData'' \<noteq> ''Mosaic'' \<and> CHR '':'' \<notin> set ''Mosaic'' \<and>
           CHR '':'' \<notin> set ''ImageData''"
    by simp
  have p: "prefix (''ImageData'' @ '':'') (cacheKey ''ImageData'' (IdStr ''a''))"
    by (simp add: cacheKey_def)
  have h: "cache_hit (memoryCache ex_state_cached) (cacheKey ''ImageData'' (IdStr ''a'')) 1
             = Some ex_old"
    by (simp add: ex_defs op_defs)
  from clearCache_prefix [of ex_state_cached "''ImageData''" "''Mosaic''" "IdStr ''a''" 1]
    clearCache_prefix [of ex_state_cached "''Mosaic''" "''ImageData''" "IdStr ''a''" 1]
    n o p h
  show ?thesis by simp
qed

section \<open>getBulk without ids\<close>

text \<open>
  C10: for a \<^verbatim>\<open>ids\<close> that is not an array or is the empty array, \<^verbatim>\<open>getBulk\<close> resolves to
  the empty array and leaves the whole state as it was: the connection is not opened and no
  call reaches the database.
\<close>

theorem getBulk_no_ids:
  "getBulk s e c NotArray = (Resolved [], s) \<and> getBulk s e c (Array []) = (Resolved [], s)"
  by (simp add: getBulk_def)

end
